theory Spec2Isabelle
  imports Complex_Main
begin

section \<open>The penalty-shot game of src/App.tsx\<close>

text \<open>
  The component \<open>App\<close> keeps eight pieces of React state, one mutable ref holding the
  handle of the charging interval, and it registers timers with the host
  (\<open>setInterval\<close>, \<open>setTimeout\<close>). The embedding keeps all of them in one record and turns
  every handler into a function on that record.

  JavaScript numbers are IEEE binary64 numbers, modelled as the \<open>real\<close> numbers they
  denote. The power, its thresholds and the counters are integers of small magnitude, on
  which double arithmetic is exact. The animator computes with a fractional random draw;
  there each product, sum and difference is rounded to the nearest double as the
  hardware does (\<open>toDouble\<close>). \<open>Math.random()\<close> is an input: each draw is a parameter
  \<open>r\<close> with \<open>0 \<le> r < 1\<close>.
\<close>

subsection \<open>Data\<close>

datatype GameState = Waiting | Charging | Shooting | Result

datatype ShotResult = Goal | Save | Miss | Null

text \<open>What a registered timer runs when it fires: the interval of \<open>handleTouchStart\<close>,
  the outer timeout of \<open>handleTouchEnd\<close>, and the inner timeout that the outer one
  registers.\<close>

datatype callback = ChargePower | ShowResultCb | ResetGameCb

record app =
  gameState :: GameState
  power_val :: real
  score :: nat
  attempts :: nat
  shotResult :: ShotResult
  goalkeeperPosition :: string
  ballPosition :: "real \<times> real"
  showResult :: bool
  powerIntervalRef :: "nat option"
  timers :: "(nat \<times> callback \<times> nat) list"
  nextTimerId :: nat

text \<open>The state of the first render. Timer handles of the host are positive integers,
  handed out in increasing order; \<open>powerIntervalRef.current\<close> starts undefined.\<close>

definition initial :: app where
  "initial = \<lparr>gameState = Waiting, power_val = 0, score = 0, attempts = 0,
     shotResult = Null, goalkeeperPosition = ''center'', ballPosition = (50, 85),
     showResult = False, powerIntervalRef = None, timers = [], nextTimerId = 1\<rparr>"

subsection \<open>The host's timer table\<close>

text \<open>\<open>setInterval\<close> and \<open>setTimeout\<close> share one pool of handles. Registering a
  callback appends it under a fresh handle, together with the delay in milliseconds that
  the call passes (the period, for an interval); \<open>clearInterval\<close> removes the handle it is
  given, whatever it names.\<close>

definition setTimer :: "callback \<Rightarrow> nat \<Rightarrow> app \<Rightarrow> app" where
  "setTimer cb ms s =
     s\<lparr>timers := timers s @ [(nextTimerId s, cb, ms)], nextTimerId := nextTimerId s + 1\<rparr>"

definition removeTimer :: "nat \<Rightarrow> app \<Rightarrow> app" where
  "removeTimer h s = s\<lparr>timers := filter (\<lambda>t. fst t \<noteq> h) (timers s)\<rparr>"

definition clearInterval :: "nat \<Rightarrow> app \<Rightarrow> app" where
  "clearInterval h s = removeTimer h s"

subsection \<open>The outcome resolver\<close>

definition perfectZoneStart :: real where
  "perfectZoneStart = 70"

definition perfectZoneEnd :: real where
  "perfectZoneEnd = 85"

definition calculateShotOutcome :: "real \<Rightarrow> ShotResult" where
  "calculateShotOutcome shotPower =
     (if shotPower \<ge> perfectZoneStart \<and> shotPower \<le> perfectZoneEnd then Goal
      else if shotPower < perfectZoneStart then Save
      else Miss)"

subsection \<open>Double arithmetic\<close>

text \<open>Rounding to the nearest integer, a tie going to the even one.\<close>

definition roundEven :: "real \<Rightarrow> int" where
  "roundEven x =
     (let f = \<lfloor>x\<rfloor>; d = x - of_int f
      in if d < 1/2 then f else if 1/2 < d then f + 1 else if even f then f else f + 1)"

text \<open>The binary exponent of a positive number: how often it is doubled until it reaches
  1 (at most 1022 times, the smallest exponent of a normal double), or halved until it is
  below 2.\<close>

fun scaleUp :: "nat \<Rightarrow> real \<Rightarrow> nat" where
  "scaleUp 0 p = 0"
| "scaleUp (Suc n) p = (if 1 \<le> p then 0 else Suc (scaleUp n (2 * p)))"

fun scaleDown :: "nat \<Rightarrow> real \<Rightarrow> nat" where
  "scaleDown 0 p = 0"
| "scaleDown (Suc n) p = (if p < 2 then 0 else Suc (scaleDown n (p / 2)))"

text \<open>The double nearest to \<open>x\<close>, ties to even: the magnitude is rounded to 53
  significant bits at its exponent (to a multiple of \<open>2\<^sup>-\<^sup>1\<^sup>0\<^sup>7\<^sup>4\<close> below the normal
  range). Overflow to infinity is left out: every magnitude here is below 128.\<close>

definition toDouble :: "real \<Rightarrow> real" where
  "toDouble x =
     (let p = \<bar>x\<bar>;
          m = (if 1 \<le> p
               then (let k = scaleDown 1023 p
                     in of_int (roundEven (p * 2 ^ 52 / 2 ^ k)) * 2 ^ k / 2 ^ 52)
               else (let k = scaleUp 1022 p
                     in of_int (roundEven (p * 2 ^ (52 + k))) / 2 ^ (52 + k)))
      in if x < 0 then - m else m)"

text \<open>The operators \<open>+\<close>, \<open>-\<close> and \<open>*\<close> on doubles.\<close>

definition addD :: "real \<Rightarrow> real \<Rightarrow> real" where
  "addD a b = toDouble (a + b)"

definition subD :: "real \<Rightarrow> real \<Rightarrow> real" where
  "subD a b = toDouble (a - b)"

definition mulD :: "real \<Rightarrow> real \<Rightarrow> real" where
  "mulD a b = toDouble (a * b)"

subsection \<open>The animator\<close>

definition positions :: "string list" where
  "positions = [''left'', ''center'', ''right'']"

text \<open>\<open>r\<close> is the value of \<open>Math.random()\<close>. An index past the end of the array reads
  \<open>undefined\<close>, which like the string chosen for it here differs from \<open>'left'\<close> and
  \<open>'right'\<close>; the draws that are doubles below 1 give an index of at most 2.\<close>

definition animateGoalkeeper :: "real \<Rightarrow> app \<Rightarrow> app" where
  "animateGoalkeeper r s =
     (let i = nat \<lfloor>mulD r (real (length positions))\<rfloor>;
          randomPosition = (if i < length positions then positions ! i else ''undefined'')
      in s\<lparr>goalkeeperPosition := randomPosition\<rparr>)"

text \<open>\<open>animateBall\<close> reads \<open>goalkeeperPosition\<close>, the constant of the render \<open>c\<close> in
  which the handler was created: a \<open>setGoalkeeperPosition\<close> made earlier in the same
  handler run is queued and not visible in it. The queued updates are applied to
  \<open>s\<close>.\<close>

definition animateBall :: "real \<Rightarrow> app \<Rightarrow> ShotResult \<Rightarrow> real \<Rightarrow> app \<Rightarrow> app" where
  "animateBall r c result shotPower s =
     (if result = Goal then s\<lparr>ballPosition := (addD 50 (mulD (subD r 0.5) 30), 40)\<rparr>
      else if result = Save then
        (let gkX = (if goalkeeperPosition c = ''left'' then 25
                    else if goalkeeperPosition c = ''right'' then 75 else 50)
         in s\<lparr>ballPosition := (addD gkX (mulD (subD r 0.5) 10), 45)\<rparr>)
      else s\<lparr>ballPosition := (addD 50 (mulD (subD r 0.5) 40), 10)\<rparr>)"

subsection \<open>The handlers\<close>

definition handleTouchStart :: "app \<Rightarrow> app" where
  "handleTouchStart s =
     (if gameState s \<noteq> Waiting then s
      else
        let s1 = s\<lparr>gameState := Charging, power_val := 0, shotResult := Null,
                   showResult := False\<rparr>
        in (setTimer ChargePower 50 s1)\<lparr>powerIntervalRef := Some (nextTimerId s1)\<rparr>)"

text \<open>The updater of the interval: \<open>prev => prev >= 100 ? 100 : prev + 2\<close>.\<close>

definition chargeTick :: "real \<Rightarrow> real" where
  "chargeTick prev = (if prev \<ge> 100 then 100 else prev + 2)"

text \<open>\<open>if (powerIntervalRef.current) clearInterval(...)\<close>: an undefined ref and the
  handle 0 are falsy.\<close>

definition handleTouchEnd :: "real \<Rightarrow> real \<Rightarrow> app \<Rightarrow> app" where
  "handleTouchEnd r1 r2 s =
     (if gameState s \<noteq> Charging then s
      else
        let s1 = (case powerIntervalRef s of
                    None \<Rightarrow> s
                  | Some h \<Rightarrow> if h = 0 then s else clearInterval h s);
            s2 = s1\<lparr>gameState := Shooting\<rparr>;
            result = calculateShotOutcome (power_val s);
            s3 = s2\<lparr>shotResult := result\<rparr>;
            s4 = animateGoalkeeper r1 s3;
            s5 = animateBall r2 s result (power_val s) s4;
            s6 = s5\<lparr>attempts := attempts s5 + 1\<rparr>;
            s7 = (if result = Goal then s6\<lparr>score := score s6 + 1\<rparr> else s6)
        in setTimer ShowResultCb 1000 s7)"

definition resetGame :: "app \<Rightarrow> app" where
  "resetGame s = s\<lparr>gameState := Waiting, power_val := 0, shotResult := Null,
     showResult := False, ballPosition := (50, 85), goalkeeperPosition := ''center''\<rparr>"

definition resetScore :: "app \<Rightarrow> app" where
  "resetScore s = resetGame (s\<lparr>score := 0, attempts := 0\<rparr>)"

text \<open>The body of the outer timeout of \<open>handleTouchEnd\<close>: show the overlay, then
  register the inner timeout that calls \<open>resetGame\<close>.\<close>

definition showResultCallback :: "app \<Rightarrow> app" where
  "showResultCallback s = setTimer ResetGameCb 2000 (s\<lparr>showResult := True\<rparr>)"

text \<open>The effect with dependencies \<open>[power, gameState, handleTouchEnd]\<close>: it runs after
  a render in which \<open>power\<close> or \<open>gameState\<close> differ from the previous render \<open>prev\<close>
  (\<open>handleTouchEnd\<close> is recreated exactly then), and calls \<open>handleTouchEnd\<close> when the
  power has reached 100 in phase charging.\<close>

definition autoShootEffect :: "real \<Rightarrow> real \<Rightarrow> app \<Rightarrow> app \<Rightarrow> app" where
  "autoShootEffect r1 r2 prev s =
     (if power_val s = power_val prev \<and> gameState s = gameState prev then s
      else if power_val s \<ge> 100 \<and> gameState s = Charging then handleTouchEnd r1 r2 s
      else s)"

subsection \<open>Events\<close>

text \<open>What can happen to the component: the two pointer events, a click on the score
  reset button, and a registered timer firing. A timer that is not in the table cannot
  fire (\<open>None\<close>). An interval stays registered after it fires; a timeout is removed.
  The table records the delay of each timer, but time does not pass in the model: any
  registered timer may be the next to fire, which covers every order the 50, 1000 and
  2000 millisecond delays allow.

  A handler reads the state of the latest render: the listeners and the effect are
  re-registered whenever \<open>handleTouchStart\<close> or \<open>handleTouchEnd\<close> is recreated, and these
  are recreated whenever \<open>gameState\<close> or \<open>power\<close> changes.\<close>

datatype event = PressStart | PressEnd | ClickResetScore | TimerFires nat

definition fire :: "nat \<Rightarrow> app \<Rightarrow> app option" where
  "fire h s =
     (case map_of (timers s) h of
        None \<Rightarrow> None
      | Some (ChargePower, ms) \<Rightarrow> Some (s\<lparr>power_val := chargeTick (power_val s)\<rparr>)
      | Some (ShowResultCb, ms) \<Rightarrow> Some (showResultCallback (removeTimer h s))
      | Some (ResetGameCb, ms) \<Rightarrow> Some (resetGame (removeTimer h s)))"

definition dispatch :: "real \<Rightarrow> real \<Rightarrow> event \<Rightarrow> app \<Rightarrow> app option" where
  "dispatch r1 r2 e s =
     (case e of
        PressStart \<Rightarrow> Some (handleTouchStart s)
      | PressEnd \<Rightarrow> Some (handleTouchEnd r1 r2 s)
      | ClickResetScore \<Rightarrow> Some (resetScore s)
      | TimerFires h \<Rightarrow> fire h s)"

text \<open>One occurrence is an event together with the two values that \<open>Math.random()\<close>
  returns if a release happens while it is processed (the first for the goalkeeper,
  the second for the ball). The handler runs, the component renders, the effect runs.\<close>

type_synonym occurrence = "event \<times> real \<times> real"

definition step :: "occurrence \<Rightarrow> app \<Rightarrow> app option" where
  "step oc s =
     (case oc of (e, r1, r2) \<Rightarrow>
        if 0 \<le> r1 \<and> r1 < 1 \<and> 0 \<le> r2 \<and> r2 < 1
        then map_option (autoShootEffect r1 r2 s) (dispatch r1 r2 e s)
        else None)"

fun run :: "app \<Rightarrow> occurrence list \<Rightarrow> app option" where
  "run s [] = Some s"
| "run s (oc # ocs) = (case step oc s of None \<Rightarrow> None | Some s' \<Rightarrow> run s' ocs)"

subsection \<open>Invariants and named states\<close>

text \<open>Predicates used to state what holds in every state the component can reach,
  and the state after a press and \<open>k\<close> ticks of the charging interval.\<close>

definition evenPower :: "real \<Rightarrow> bool" where
  "evenPower p = (\<exists>k::nat. k \<le> 50 \<and> p = 2 * real k)"

definition chargingBelowMax :: "app \<Rightarrow> bool" where
  "chargingBelowMax s = (gameState s = Charging \<longrightarrow> power_val s < 100)"

definition roundDefaults :: "app \<Rightarrow> bool" where
  "roundDefaults s = (goalkeeperPosition s = ''center'' \<and> ballPosition s = (50, 85))"

definition idleDefaults :: "app \<Rightarrow> bool" where
  "idleDefaults s = (gameState s = Waiting \<or> gameState s = Charging \<longrightarrow> roundDefaults s)"

definition charged :: "nat \<Rightarrow> app" where
  "charged k = \<lparr>gameState = Charging, power_val = 2 * real k, score = 0, attempts = 0,
     shotResult = Null, goalkeeperPosition = ''center'', ballPosition = (50, 85),
     showResult = False, powerIntervalRef = Some 1, timers = [(1, ChargePower, 50)],
     nextTimerId = 2\<rparr>"

text \<open>The timers registered in each phase when no score reset interferes: none while
  waiting, the charging interval of the ref while charging, one of the two timeouts while
  shooting.\<close>

definition roundTimers :: "app \<Rightarrow> bool" where
  "roundTimers s =
     (0 < nextTimerId s \<and>
      (case gameState s of
         Waiting \<Rightarrow> timers s = []
       | Charging \<Rightarrow> (\<exists>h. 0 < h \<and> powerIntervalRef s = Some h \<and> timers s = [(h, ChargePower, 50)])
       | Shooting \<Rightarrow> (\<exists>h. timers s = [(h, ShowResultCb, 1000)] \<or> timers s = [(h, ResetGameCb, 2000)])
       | Result \<Rightarrow> False))"

text \<open>The state after a press start, a click on the score reset and \<open>k\<close> ticks of the
  interval that the reset has left registered: the phase is waiting, the power is
  \<open>2 * k\<close>.\<close>

definition leaked :: "nat \<Rightarrow> app" where
  "leaked k = initial\<lparr>power_val := 2 * real k, powerIntervalRef := Some 1,
     timers := [(1, ChargePower, 50)], nextTimerId := 2\<rparr>"

text \<open>The delay with which each callback is registered, and the states in which every
  timer of the table has the delay of its callback.\<close>

definition delayOf :: "callback \<Rightarrow> nat" where
  "delayOf cb = (case cb of ChargePower \<Rightarrow> 50 | ShowResultCb \<Rightarrow> 1000 | ResetGameCb \<Rightarrow> 2000)"

definition timerDelays :: "app \<Rightarrow> bool" where
  "timerDelays s = list_all (\<lambda>(h, cb, ms). ms = delayOf cb) (timers s)"

text \<open>The state after a press, a release and a click on the score reset, in this
  order: the phase is waiting again and the outer timeout of the release is still
  registered.\<close>

definition resetMidSequence :: app where
  "resetMidSequence = initial\<lparr>powerIntervalRef := Some 1, timers := [(2, ShowResultCb, 1000)],
     nextTimerId := 3\<rparr>"

section \<open>Auxiliary facts about the handlers\<close>

subsection \<open>Evaluating double arithmetic\<close>

lemma scaleUp_numeral:
  "scaleUp (numeral n) p = (if 1 \<le> p then 0 else Suc (scaleUp (pred_numeral n) (2 * p)))"
  by (simp add: numeral_eq_Suc)

lemma scaleDown_numeral:
  "scaleDown (numeral n) p = (if p < 2 then 0 else Suc (scaleDown (pred_numeral n) (p / 2)))"
  by (simp add: numeral_eq_Suc)

lemmas double_eval = addD_def subD_def mulD_def toDouble_def roundEven_def scaleUp_numeral
  scaleDown_numeral Let_def

subsection \<open>Rounding at the integers 1, 2 and 3\<close>

lemma roundEven_cases:
  "roundEven x = \<lfloor>x\<rfloor> \<or> roundEven x = \<lfloor>x\<rfloor> + 1"
  by (simp add: roundEven_def Let_def)

lemma roundEven_less_even:
  assumes "even n"
  shows "roundEven x < n \<longleftrightarrow> x < of_int n - 1/2"
proof
  assume lt: "roundEven x < n"
  show "x < of_int n - 1/2"
  proof (rule ccontr)
    assume "\<not> x < of_int n - 1/2"
    then have ge: "of_int n - 1/2 \<le> x" by simp
    then have "of_int (n - 1) \<le> x" by simp
    then have f: "n - 1 \<le> \<lfloor>x\<rfloor>" by (simp only: le_floor_iff)
    show False
    proof (cases "\<lfloor>x\<rfloor> = n - 1")
      case True
      with ge have d: "1/2 \<le> x - of_int \<lfloor>x\<rfloor>" by simp
      from True assms have "odd \<lfloor>x\<rfloor>" by simp
      with d True have "roundEven x = n"
        by (auto simp: roundEven_def Let_def)
      with lt show False by simp
    next
      case False
      with f have "n \<le> \<lfloor>x\<rfloor>" by simp
      with roundEven_cases [of x] lt show False by auto
    qed
  qed
next
  assume lt: "x < of_int n - 1/2"
  then have "x < of_int n" by simp
  then have f: "\<lfloor>x\<rfloor> < n" by (simp only: floor_less_iff)
  show "roundEven x < n"
  proof (cases "\<lfloor>x\<rfloor> = n - 1")
    case True
    with lt have "x - of_int \<lfloor>x\<rfloor> < 1/2" by simp
    with True show ?thesis by (simp add: roundEven_def Let_def)
  next
    case False
    with f have "\<lfloor>x\<rfloor> + 1 < n" by simp
    with roundEven_cases [of x] show ?thesis by auto
  qed
qed

lemma roundEven_upper: "of_int (roundEven x) \<le> x + 1/2"
proof (cases "x - of_int \<lfloor>x\<rfloor> < 1/2")
  case True
  then have "(of_int (roundEven x) :: real) = of_int \<lfloor>x\<rfloor>"
    by (simp add: roundEven_def Let_def)
  with of_int_floor_le [of x] show ?thesis by linarith
next
  case False
  with roundEven_cases [of x] have "of_int (roundEven x) \<le> (of_int \<lfloor>x\<rfloor> :: real) + 1"
    by auto
  with False show ?thesis by linarith
qed

lemma roundEven_nonneg: "0 \<le> x \<Longrightarrow> 0 \<le> roundEven x"
  using roundEven_cases [of x] by (auto simp: zero_le_floor)

lemma toDouble_binade1:
  assumes "2 \<le> p" and "p < 4"
  shows "toDouble p = of_int (roundEven (p * 2 ^ 51)) / 2 ^ 51"
  using assms by (simp add: toDouble_def scaleDown_numeral Let_def mult.commute)

lemma toDouble_binade0:
  assumes "1 \<le> p" and "p < 2"
  shows "toDouble p = of_int (roundEven (p * 2 ^ 52)) / 2 ^ 52"
  using assms by (simp add: toDouble_def scaleDown_numeral Let_def mult.commute)

lemma toDouble_binade_half:
  assumes "1/2 \<le> p" and "p < 1"
  shows "toDouble p = of_int (roundEven (p * 2 ^ 53)) / 2 ^ 53"
  using assms by (simp add: toDouble_def scaleUp_numeral Let_def mult.commute)

lemma toDouble_small:
  assumes "0 \<le> p" and "p < 1/2"
  shows "0 \<le> toDouble p \<and> toDouble p < 1"
proof -
  define k where "k = scaleUp 1022 p"
  have eq: "toDouble p = of_int (roundEven (p * 2 ^ (52 + k))) / 2 ^ (52 + k)"
    using assms by (simp add: toDouble_def Let_def k_def)
  have "of_int (roundEven (p * 2 ^ (52 + k))) \<le> p * 2 ^ (52 + k) + 1/2"
    by (rule roundEven_upper)
  then have "of_int (roundEven (p * 2 ^ (52 + k))) / 2 ^ (52 + k) \<le>
      (p * 2 ^ (52 + k) + 1/2) / 2 ^ (52 + k)"
    by (simp add: divide_right_mono)
  also have "\<dots> = p + (1/2) / 2 ^ (52 + k)"
    by (simp add: add_divide_distrib)
  also have "\<dots> \<le> p + 1/2"
  proof -
    have "(1::real) \<le> 2 ^ (52 + k)" by simp
    then have "(1/2) / 2 ^ (52 + k) \<le> (1/2) / (1::real)"
      by (intro divide_left_mono) simp_all
    then show ?thesis by simp
  qed
  also from assms(2) have "\<dots> < 1" by simp
  finally have "toDouble p < 1" by (simp add: eq)
  moreover from assms(1) have "0 \<le> roundEven (p * 2 ^ (52 + k))"
    by (intro roundEven_nonneg) simp
  then have "0 \<le> toDouble p" by (simp add: eq)
  ultimately show ?thesis by simp
qed


lemma floor_mul3:
  assumes "0 \<le> r" and "r \<le> 1 - 1 / 2 ^ 53"
  shows "\<lfloor>toDouble (r * 3)\<rfloor> =
         (if 3 * r < 1 - 1 / 2 ^ 54 then 0 else if 3 * r < 2 - 1 / 2 ^ 53 then 1 else 2)"
proof -
  define p where "p = r * 3"
  from assms have p: "0 \<le> p" "p < 3 - 1 / 2 ^ 52" by (simp_all add: p_def)
  consider "p < 1/2" | "1/2 \<le> p" "p < 1 - 1 / 2 ^ 54" | "1 - 1 / 2 ^ 54 \<le> p" "p < 1"
    | "1 \<le> p" "p < 2 - 1 / 2 ^ 53" | "2 - 1 / 2 ^ 53 \<le> p" "p < 2" | "2 \<le> p"
    by linarith
  then have "\<lfloor>toDouble p\<rfloor> =
      (if p < 1 - 1 / 2 ^ 54 then 0 else if p < 2 - 1 / 2 ^ 53 then 1 else 2)"
  proof cases
    case 1
    with p(1) toDouble_small [of p] have "\<lfloor>toDouble p\<rfloor> = 0"
      by (simp add: floor_eq_iff)
    with 1 show ?thesis by simp
  next
    case 2
    then have eq: "toDouble p = of_int (roundEven (p * 2 ^ 53)) / 2 ^ 53"
      by (intro toDouble_binade_half) simp_all
    from 2 have "roundEven (p * 2 ^ 53) < 2 ^ 53"
      using roundEven_less_even [of "2 ^ 53" "p * 2 ^ 53"] by simp
    moreover from p(1) have "0 \<le> roundEven (p * 2 ^ 53)"
      by (intro roundEven_nonneg) simp
    ultimately have "\<lfloor>toDouble p\<rfloor> = 0"
      by (simp add: eq floor_eq_iff)
    with 2 show ?thesis by simp
  next
    case 3
    then have eq: "toDouble p = of_int (roundEven (p * 2 ^ 53)) / 2 ^ 53"
      by (intro toDouble_binade_half) simp_all
    from 3 have "\<not> roundEven (p * 2 ^ 53) < 2 ^ 53"
      using roundEven_less_even [of "2 ^ 53" "p * 2 ^ 53"] by simp
    moreover from 3 have "roundEven (p * 2 ^ 53) < 2 ^ 54"
      using roundEven_less_even [of "2 ^ 54" "p * 2 ^ 53"] by simp
    ultimately have "\<lfloor>toDouble p\<rfloor> = 1"
      by (simp add: eq floor_eq_iff)
    with 3 show ?thesis by simp
  next
    case 4
    then have eq: "toDouble p = of_int (roundEven (p * 2 ^ 52)) / 2 ^ 52"
      by (intro toDouble_binade0) simp_all
    from 4 have "\<not> roundEven (p * 2 ^ 52) < 2 ^ 52"
      using roundEven_less_even [of "2 ^ 52" "p * 2 ^ 52"] by simp
    moreover from 4 have "roundEven (p * 2 ^ 52) < 2 ^ 53"
      using roundEven_less_even [of "2 ^ 53" "p * 2 ^ 52"] by simp
    ultimately have "\<lfloor>toDouble p\<rfloor> = 1"
      by (simp add: eq floor_eq_iff)
    with 4 show ?thesis by simp
  next
    case 5
    then have eq: "toDouble p = of_int (roundEven (p * 2 ^ 52)) / 2 ^ 52"
      by (intro toDouble_binade0) simp_all
    from 5 have "\<not> roundEven (p * 2 ^ 52) < 2 ^ 53"
      using roundEven_less_even [of "2 ^ 53" "p * 2 ^ 52"] by simp
    moreover from 5 have "roundEven (p * 2 ^ 52) < 3 * 2 ^ 52"
      using roundEven_less_even [of "3 * 2 ^ 52" "p * 2 ^ 52"] by simp
    ultimately have "\<lfloor>toDouble p\<rfloor> = 2"
      by (simp add: eq floor_eq_iff)
    with 5 show ?thesis by simp
  next
    case 6
    with p(2) have eq: "toDouble p = of_int (roundEven (p * 2 ^ 51)) / 2 ^ 51"
      by (intro toDouble_binade1) simp_all
    from 6 have "\<not> roundEven (p * 2 ^ 51) < 2 ^ 52"
      using roundEven_less_even [of "2 ^ 52" "p * 2 ^ 51"] by simp
    moreover from p(2) have "roundEven (p * 2 ^ 51) < 3 * 2 ^ 51"
      using roundEven_less_even [of "3 * 2 ^ 51" "p * 2 ^ 51"] by simp
    ultimately have "\<lfloor>toDouble p\<rfloor> = 2"
      by (simp add: eq floor_eq_iff)
    with 6 show ?thesis by simp
  qed
  then show ?thesis by (simp add: p_def mult.commute)
qed

lemmas handler_defs = handleTouchStart_def handleTouchEnd_def resetGame_def resetScore_def
  showResultCallback_def autoShootEffect_def setTimer_def removeTimer_def clearInterval_def
  animateGoalkeeper_def animateBall_def

subsection \<open>What a release changes\<close>

lemma handleTouchEnd_charging:
  assumes "gameState s = Charging"
  shows "gameState (handleTouchEnd r1 r2 s) = Shooting"
    and "power_val (handleTouchEnd r1 r2 s) = power_val s"
    and "shotResult (handleTouchEnd r1 r2 s) = calculateShotOutcome (power_val s)"
    and "attempts (handleTouchEnd r1 r2 s) = attempts s + 1"
    and "score (handleTouchEnd r1 r2 s) =
           score s + (if calculateShotOutcome (power_val s) = Goal then 1 else 0)"
  using assms by (simp_all add: handler_defs Let_def split: option.split)

lemma handleTouchEnd_other:
  "gameState s \<noteq> Charging \<Longrightarrow> handleTouchEnd r1 r2 s = s"
  by (simp add: handleTouchEnd_def)

lemma handleTouchEnd_score_le:
  "score s \<le> attempts s \<Longrightarrow> score (handleTouchEnd r1 r2 s) \<le> attempts (handleTouchEnd r1 r2 s)"
  by (cases "gameState s = Charging") (simp_all add: handleTouchEnd_charging handleTouchEnd_other)

lemma autoShootEffect_cases:
  "autoShootEffect r1 r2 prev s = s \<or> autoShootEffect r1 r2 prev s = handleTouchEnd r1 r2 s"
  by (simp add: autoShootEffect_def)

subsection \<open>The score never exceeds the attempts\<close>

lemma dispatch_score_le:
  assumes "dispatch r1 r2 e s = Some s'" and "score s \<le> attempts s"
  shows "score s' \<le> attempts s'"
proof (cases e)
  case PressStart
  with assms show ?thesis
    by (auto simp: dispatch_def handleTouchStart_def setTimer_def Let_def)
next
  case PressEnd
  with assms show ?thesis
    by (auto simp: dispatch_def handleTouchEnd_score_le)
next
  case ClickResetScore
  with assms show ?thesis
    by (auto simp: dispatch_def resetScore_def resetGame_def)
next
  case (TimerFires h)
  with assms show ?thesis
    by (auto simp: dispatch_def fire_def resetGame_def removeTimer_def showResultCallback_def
        setTimer_def split: option.splits callback.splits prod.splits)
qed

lemma step_score_le:
  assumes "step oc s = Some s'" and "score s \<le> attempts s"
  shows "score s' \<le> attempts s'"
proof -
  obtain e r1 r2 where oc: "oc = (e, r1, r2)" by (cases oc) auto
  from assms(1) oc obtain t where t: "dispatch r1 r2 e s = Some t"
    and s': "s' = autoShootEffect r1 r2 s t"
    by (auto simp: step_def split: if_splits)
  from t assms(2) have "score t \<le> attempts t" by (rule dispatch_score_le)
  with s' autoShootEffect_cases [of r1 r2 s t] show ?thesis
    by (auto simp: handleTouchEnd_score_le)
qed

lemma run_score_le:
  "run s ocs = Some s' \<Longrightarrow> score s \<le> attempts s \<Longrightarrow> score s' \<le> attempts s'"
proof (induction ocs arbitrary: s)
  case Nil
  then show ?case by simp
next
  case (Cons oc ocs)
  then show ?case by (auto split: option.splits dest: step_score_le)
qed

subsection \<open>The power stays an even number up to 100\<close>

lemma step_SomeD:
  assumes "step oc s = Some s'"
  obtains e r1 r2 t where "oc = (e, r1, r2)" and "0 \<le> r1" and "r1 < 1" and "0 \<le> r2" and "r2 < 1"
    and "dispatch r1 r2 e s = Some t" and "s' = autoShootEffect r1 r2 s t"
  using assms by (cases oc) (auto simp: step_def split: if_splits)

lemma evenPower_zero: "evenPower 0"
  unfolding evenPower_def by (rule exI [of _ 0]) simp

lemma evenPower_le: "evenPower p \<Longrightarrow> p \<le> 100"
  unfolding evenPower_def by auto

lemma evenPower_tick:
  assumes "evenPower p"
  shows "evenPower (chargeTick p)"
proof -
  from assms obtain k :: nat where k: "k \<le> 50" "p = 2 * real k"
    by (auto simp: evenPower_def)
  show ?thesis
  proof (cases "p \<ge> 100")
    case True
    then show ?thesis
      unfolding evenPower_def by (intro exI [of _ 50]) (simp add: chargeTick_def)
  next
    case False
    with k have "k < 50" by auto
    with k False show ?thesis
      unfolding evenPower_def by (intro exI [of _ "Suc k"]) (simp add: chargeTick_def)
  qed
qed

lemma handleTouchEnd_power: "power_val (handleTouchEnd r1 r2 s) = power_val s"
  by (cases "gameState s = Charging") (simp_all add: handleTouchEnd_charging handleTouchEnd_other)

lemma autoShootEffect_power: "power_val (autoShootEffect r1 r2 prev s) = power_val s"
  by (simp add: autoShootEffect_def handleTouchEnd_power)

lemma dispatch_evenPower:
  assumes "dispatch r1 r2 e s = Some t" and "evenPower (power_val s)"
  shows "evenPower (power_val t)"
proof (cases e)
  case PressStart
  with assms show ?thesis
    by (auto simp: dispatch_def handleTouchStart_def setTimer_def Let_def evenPower_zero)
next
  case PressEnd
  with assms show ?thesis
    by (auto simp: dispatch_def handleTouchEnd_power)
next
  case ClickResetScore
  with assms show ?thesis
    by (auto simp: dispatch_def resetScore_def resetGame_def evenPower_zero)
next
  case (TimerFires h)
  with assms show ?thesis
    by (auto simp: dispatch_def fire_def resetGame_def removeTimer_def showResultCallback_def
        setTimer_def evenPower_tick evenPower_zero split: option.splits callback.splits prod.splits)
qed

lemma step_evenPower:
  assumes "step oc s = Some s'" and "evenPower (power_val s)"
  shows "evenPower (power_val s')"
proof -
  from assms(1) obtain e r1 r2 t where t: "dispatch r1 r2 e s = Some t"
    and s': "s' = autoShootEffect r1 r2 s t"
    by (rule step_SomeD)
  from t assms(2) have "evenPower (power_val t)" by (rule dispatch_evenPower)
  then show ?thesis
    by (simp add: s' autoShootEffect_power)
qed

lemma step_chargingBelowMax:
  assumes "step oc s = Some s'" and "chargingBelowMax s"
  shows "chargingBelowMax s'"
proof -
  from assms(1) obtain e r1 r2 t where s': "s' = autoShootEffect r1 r2 s t"
    by (rule step_SomeD)
  show ?thesis
  proof (cases "power_val t = power_val s \<and> gameState t = gameState s")
    case True
    with assms(2) show ?thesis
      by (simp add: s' autoShootEffect_def chargingBelowMax_def)
  next
    case False
    then show ?thesis
      by (auto simp: s' autoShootEffect_def chargingBelowMax_def handleTouchEnd_charging)
  qed
qed

lemma run_power_inv:
  "run s ocs = Some s' \<Longrightarrow> evenPower (power_val s) \<Longrightarrow> chargingBelowMax s \<Longrightarrow>
     evenPower (power_val s') \<and> chargingBelowMax s'"
proof (induction ocs arbitrary: s)
  case Nil
  then show ?case by simp
next
  case (Cons oc ocs)
  then show ?case
    by (auto split: option.splits dest: step_evenPower step_chargingBelowMax)
qed

lemma initial_power_inv: "evenPower (power_val initial) \<and> chargingBelowMax initial"
  by (simp add: evenPower_zero chargingBelowMax_def initial_def)

lemma reachable_power:
  assumes "run initial ocs = Some s"
  shows "evenPower (power_val s)" and "chargingBelowMax s"
  using run_power_inv [OF assms] initial_power_inv by simp_all

subsection \<open>Goalkeeper and ball between rounds\<close>

lemma handleTouchStart_keeps:
  "goalkeeperPosition (handleTouchStart s) = goalkeeperPosition s \<and>
   ballPosition (handleTouchStart s) = ballPosition s"
  by (simp add: handleTouchStart_def setTimer_def Let_def)

lemma resetGame_defaults:
  "gameState (resetGame s) = Waiting \<and> roundDefaults (resetGame s)"
  by (simp add: resetGame_def roundDefaults_def)

lemma dispatch_visual:
  assumes "dispatch r1 r2 e s = Some t"
  shows "(gameState t = gameState s \<and> goalkeeperPosition t = goalkeeperPosition s \<and> ballPosition t = ballPosition s) \<or>
         (gameState s = Waiting \<and> gameState t = Charging \<and> goalkeeperPosition t = goalkeeperPosition s \<and> ballPosition t = ballPosition s) \<or>
         (gameState s = Charging \<and> gameState t = Shooting) \<or>
         (gameState t = Waiting \<and> roundDefaults t)"
proof (cases e)
  case PressStart
  with assms show ?thesis
    by (cases "gameState s = Waiting")
      (auto simp: dispatch_def handleTouchStart_def setTimer_def Let_def)
next
  case PressEnd
  with assms show ?thesis
    by (cases "gameState s = Charging")
      (auto simp: dispatch_def handleTouchEnd_charging handleTouchEnd_other)
next
  case ClickResetScore
  with assms show ?thesis
    by (auto simp: dispatch_def resetScore_def resetGame_defaults)
next
  case (TimerFires h)
  with assms show ?thesis
    by (auto simp: dispatch_def fire_def resetGame_defaults removeTimer_def showResultCallback_def
        setTimer_def split: option.splits callback.splits prod.splits)
qed

lemma autoShootEffect_visual:
  "autoShootEffect r1 r2 prev t = t \<or>
   (gameState t = Charging \<and> gameState (autoShootEffect r1 r2 prev t) = Shooting)"
  by (auto simp: autoShootEffect_def handleTouchEnd_charging)

lemma step_visual:
  assumes "step oc s = Some s'"
  shows "(goalkeeperPosition s' = goalkeeperPosition s \<and> ballPosition s' = ballPosition s \<and>
            (gameState s' = gameState s \<or> gameState s = Waiting \<and> gameState s' = Charging)) \<or>
         (gameState s' = Shooting \<and> (gameState s = Charging \<or> gameState s = Waiting)) \<or>
         (gameState s' = Waiting \<and> roundDefaults s')"
proof -
  from assms(1) obtain e r1 r2 t where t: "dispatch r1 r2 e s = Some t"
    and s': "s' = autoShootEffect r1 r2 s t"
    by (rule step_SomeD)
  from dispatch_visual [OF t] autoShootEffect_visual [of r1 r2 s t] show ?thesis
    unfolding s' by auto
qed

lemma step_idleDefaults:
  assumes "step oc s = Some s'" and "idleDefaults s"
  shows "idleDefaults s'"
  using step_visual [OF assms(1)] assms(2)
  by (auto simp: idleDefaults_def roundDefaults_def)

lemma run_idleDefaults:
  "run s ocs = Some s' \<Longrightarrow> idleDefaults s \<Longrightarrow> idleDefaults s'"
proof (induction ocs arbitrary: s)
  case Nil
  then show ?case by simp
next
  case (Cons oc ocs)
  then show ?case
    by (auto split: option.splits dest: step_idleDefaults)
qed

subsection \<open>Steps that count a shot\<close>

lemma dispatch_counters:
  assumes "dispatch r1 r2 e s = Some t"
  shows "(attempts t = attempts s \<and> score t = score s \<and>
            (gameState t = gameState s \<or> gameState t \<noteq> Shooting)) \<or>
         (attempts t = 0 \<and> score t = 0 \<and> gameState t = Waiting) \<or>
         (gameState s = Charging \<and> t = handleTouchEnd r1 r2 s)"
proof (cases e)
  case PressStart
  with assms show ?thesis
    by (cases "gameState s = Waiting")
      (auto simp: dispatch_def handleTouchStart_def setTimer_def Let_def)
next
  case PressEnd
  with assms show ?thesis
    by (cases "gameState s = Charging") (auto simp: dispatch_def handleTouchEnd_other)
next
  case ClickResetScore
  with assms show ?thesis
    by (auto simp: dispatch_def resetScore_def resetGame_def)
next
  case (TimerFires h)
  with assms show ?thesis
    by (auto simp: dispatch_def fire_def resetGame_def removeTimer_def showResultCallback_def
        setTimer_def split: option.splits callback.splits prod.splits)
qed

lemma release_counters:
  assumes "gameState s = Charging"
  shows "gameState (handleTouchEnd r1 r2 s) = Shooting \<and>
         attempts (handleTouchEnd r1 r2 s) = attempts s + 1 \<and>
         score (handleTouchEnd r1 r2 s) =
           score s + (if shotResult (handleTouchEnd r1 r2 s) = Goal then 1 else 0)"
  using assms by (simp add: handleTouchEnd_charging)

lemma effect_fires:
  assumes "autoShootEffect r1 r2 s t \<noteq> t"
  shows "gameState t = Charging" and "power_val t \<ge> 100"
    and "autoShootEffect r1 r2 s t = handleTouchEnd r1 r2 t"
  using assms by (auto simp: autoShootEffect_def split: if_splits)

lemma dispatch_into_charging:
  assumes "dispatch r1 r2 e s = Some t" and "gameState t = Charging"
  shows "gameState s = Charging \<or> power_val t = 0"
proof (cases e)
  case PressStart
  with assms show ?thesis
    by (cases "gameState s = Waiting")
      (auto simp: dispatch_def handleTouchStart_def setTimer_def Let_def)
next
  case PressEnd
  with assms show ?thesis
    by (cases "gameState s = Charging")
      (auto simp: dispatch_def handleTouchEnd_other handleTouchEnd_charging)
next
  case ClickResetScore
  with assms show ?thesis
    by (auto simp: dispatch_def resetScore_def resetGame_def)
next
  case (TimerFires h)
  with assms show ?thesis
    by (auto simp: dispatch_def fire_def resetGame_def removeTimer_def showResultCallback_def
        setTimer_def split: option.splits callback.splits prod.splits)
qed

lemma step_release_cases:
  assumes "step oc s = Some s'"
  shows "(attempts s' = attempts s \<and> score s' = score s \<and>
            (gameState s' = gameState s \<or> gameState s' \<noteq> Shooting)) \<or>
         (attempts s' = 0 \<and> score s' = 0 \<and> gameState s' = Waiting) \<or>
         (gameState s = Charging \<and> gameState s' = Shooting \<and>
            attempts s' = attempts s + 1 \<and>
            score s' = score s + (if shotResult s' = Goal then 1 else 0))"
proof -
  from assms(1) obtain e r1 r2 t where t: "dispatch r1 r2 e s = Some t"
    and s': "s' = autoShootEffect r1 r2 s t"
    by (rule step_SomeD)
  show ?thesis
  proof (cases "s' = t")
    case True
    with dispatch_counters [OF t] release_counters [of s r1 r2] show ?thesis
      by auto
  next
    case False
    with s' have c: "gameState t = Charging" and p: "power_val t \<ge> 100"
      and r: "s' = handleTouchEnd r1 r2 t"
      using effect_fires [of r1 r2 s t] by auto
    from c dispatch_counters [OF t]
    have same: "attempts t = attempts s \<and> score t = score s"
      by (auto simp: handleTouchEnd_charging)
    from dispatch_into_charging [OF t c] p have "gameState s = Charging" by auto
    with release_counters [OF c, of r1 r2] same show ?thesis
      unfolding r by simp
  qed
qed

subsection \<open>A press followed by ticks\<close>

lemma run_append:
  "run s (xs @ ys) = (case run s xs of None \<Rightarrow> None | Some t \<Rightarrow> run t ys)"
  by (induction xs arbitrary: s) (auto split: option.splits)

lemma press_start_initial: "run initial [(PressStart, 0, 0)] = Some (charged 0)"
  by (simp add: step_def dispatch_def handleTouchStart_def setTimer_def autoShootEffect_def
      initial_def charged_def)

lemma charged_tick:
  assumes "k < 49"
  shows "step (TimerFires 1, 0, 0) (charged k) = Some (charged (Suc k))"
proof -
  from assms have "2 * real k < 98" by simp
  then show ?thesis
    by (simp add: step_def dispatch_def fire_def charged_def chargeTick_def autoShootEffect_def)
qed

lemma charged_ticks:
  "k \<le> 49 \<Longrightarrow> run (charged 0) (replicate k (TimerFires 1, 0, 0)) = Some (charged k)"
proof (induction k)
  case 0
  then show ?case by simp
next
  case (Suc k)
  then have ih: "run (charged 0) (replicate k (TimerFires 1, 0, 0)) = Some (charged k)"
    and k: "k < 49"
    by simp_all
  have "replicate (Suc k) (TimerFires 1, 0::real, 0::real) =
      replicate k (TimerFires 1, 0, 0) @ [(TimerFires 1, 0, 0)]"
    by (simp add: replicate_append_same)
  then have "run (charged 0) (replicate (Suc k) (TimerFires 1, 0, 0)) =
      run (charged k) [(TimerFires 1, 0, 0)]"
    by (simp only: run_append ih option.case)
  also have "\<dots> = Some (charged (Suc k))"
    by (simp only: run.simps charged_tick [OF k] option.case)
  finally show ?case .
qed

lemma reach_charged_49:
  "run initial ((PressStart, 0, 0) # replicate 49 (TimerFires 1, 0, 0)) = Some (charged 49)"
  using press_start_initial charged_ticks [of 49]
  by (simp split: option.splits)

lemma dispatch_charging_counters:
  assumes "dispatch r1 r2 e s = Some t" and "gameState t = Charging"
  shows "attempts t = attempts s \<and> score t = score s"
  using dispatch_counters [OF assms(1)] assms(2)
  by (auto simp: handleTouchEnd_charging)

subsection \<open>Steps that move goalkeeper or ball\<close>

lemma step_visual_release:
  assumes "step oc s = Some s'"
  shows "(goalkeeperPosition s' = goalkeeperPosition s \<and> ballPosition s' = ballPosition s) \<or>
         (gameState s = Charging \<and> gameState s' = Shooting) \<or>
         (gameState s' = Waiting \<and> roundDefaults s')"
proof -
  from assms(1) obtain e r1 r2 t where t: "dispatch r1 r2 e s = Some t"
    and s': "s' = autoShootEffect r1 r2 s t"
    by (rule step_SomeD)
  show ?thesis
  proof (cases "s' = t")
    case True
    with dispatch_visual [OF t] show ?thesis by auto
  next
    case False
    with s' have c: "gameState t = Charging" and p: "power_val t \<ge> 100"
      and r: "s' = handleTouchEnd r1 r2 t"
      using effect_fires [of r1 r2 s t] by auto
    from dispatch_into_charging [OF t c] p have "gameState s = Charging" by auto
    with c r show ?thesis by (simp add: handleTouchEnd_charging)
  qed
qed

lemma step_into_waiting:
  assumes "step oc s = Some s'" and "gameState s' = Waiting" and "gameState s \<noteq> Waiting"
  shows "roundDefaults s'"
  using step_visual [OF assms(1)] assms(2,3) by auto

lemma released_zero:
  "gameState (handleTouchEnd 0 0 (charged 0)) = Shooting"
  "goalkeeperPosition (handleTouchEnd 0 0 (charged 0)) = ''left''"
  by (simp_all add: handleTouchEnd_def charged_def setTimer_def animateBall_def
        animateGoalkeeper_def positions_def clearInterval_def removeTimer_def double_eval)

subsection \<open>Evaluation on concrete traces\<close>

lemmas eval_defs = step_def dispatch_def fire_def handleTouchStart_def handleTouchEnd_def
  resetGame_def resetScore_def showResultCallback_def autoShootEffect_def setTimer_def
  removeTimer_def clearInterval_def animateGoalkeeper_def animateBall_def chargeTick_def
  calculateShotOutcome_def perfectZoneStart_def perfectZoneEnd_def positions_def initial_def
  double_eval

subsection \<open>The animator\<close>

lemma animateGoalkeeper_thirds:
  assumes "0 \<le> r" and "r \<le> 1 - 1 / 2 ^ 53"
  shows "goalkeeperPosition (animateGoalkeeper r s) =
         (if 3 * r < 1 - 1 / 2 ^ 54 then ''left''
          else if 3 * r < 2 - 1 / 2 ^ 53 then ''center'' else ''right'')"
  using floor_mul3 [OF assms]
  by (simp add: animateGoalkeeper_def mulD_def positions_def Let_def)

lemma handleTouchEnd_visual:
  assumes "gameState s = Charging"
  shows "goalkeeperPosition (handleTouchEnd r1 r2 s) = goalkeeperPosition (animateGoalkeeper r1 s)"
    and "ballPosition (handleTouchEnd r1 r2 s) =
         ballPosition (animateBall r2 s (calculateShotOutcome (power_val s)) (power_val s) s)"
  using assms
  by (simp_all add: handleTouchEnd_def Let_def setTimer_def animateGoalkeeper_def animateBall_def
      clearInterval_def removeTimer_def split: option.split)

subsection \<open>Timers of a round without score reset\<close>

lemma handleTouchEnd_roundTimers:
  assumes "roundTimers s"
  shows "roundTimers (handleTouchEnd r1 r2 s)"
proof (cases "gameState s = Charging")
  case True
  with assms obtain h where "0 < h" "powerIntervalRef s = Some h" "timers s = [(h, ChargePower, 50)]"
    and "0 < nextTimerId s"
    by (auto simp: roundTimers_def)
  with True show ?thesis
    by (simp add: roundTimers_def handleTouchEnd_def Let_def setTimer_def animateGoalkeeper_def
        animateBall_def clearInterval_def removeTimer_def)
next
  case False
  with assms show ?thesis by (simp add: handleTouchEnd_other)
qed

lemma dispatch_roundTimers:
  assumes "dispatch r1 r2 e s = Some t" and "e \<noteq> ClickResetScore" and "roundTimers s"
  shows "roundTimers t"
proof (cases e)
  case PressStart
  with assms show ?thesis
    by (cases "gameState s = Waiting")
      (auto simp: dispatch_def handleTouchStart_def setTimer_def Let_def roundTimers_def)
next
  case PressEnd
  with assms show ?thesis
    by (auto simp: dispatch_def handleTouchEnd_roundTimers)
next
  case ClickResetScore
  with assms show ?thesis by simp
next
  case (TimerFires h)
  with assms show ?thesis
    by (cases "gameState s")
      (auto simp: dispatch_def fire_def resetGame_def removeTimer_def showResultCallback_def
        setTimer_def roundTimers_def split: option.splits callback.splits prod.splits if_splits)
qed

lemma step_roundTimers:
  assumes "step oc s = Some s'" and "fst oc \<noteq> ClickResetScore" and "roundTimers s"
  shows "roundTimers s'"
proof -
  from assms(1) obtain e r1 r2 t where oc: "oc = (e, r1, r2)"
    and t: "dispatch r1 r2 e s = Some t" and s': "s' = autoShootEffect r1 r2 s t"
    by (rule step_SomeD)
  from t assms(2,3) oc have "roundTimers t" by (auto intro: dispatch_roundTimers)
  with s' autoShootEffect_cases [of r1 r2 s t] show ?thesis
    by (auto simp: handleTouchEnd_roundTimers)
qed

lemma run_roundTimers:
  "run s ocs = Some s' \<Longrightarrow> ClickResetScore \<notin> fst ` set ocs \<Longrightarrow> roundTimers s \<Longrightarrow>
     roundTimers s'"
proof (induction ocs arbitrary: s)
  case Nil
  then show ?case by simp
next
  case (Cons oc ocs)
  then show ?case
    by (auto split: option.splits dest: step_roundTimers)
qed

subsection \<open>Every timer keeps the delay it was registered with\<close>

lemma timerDelays_setTimer:
  "timerDelays s \<Longrightarrow> ms = delayOf cb \<Longrightarrow> timerDelays (setTimer cb ms s)"
  by (simp add: timerDelays_def setTimer_def)

lemma timerDelays_removeTimer: "timerDelays s \<Longrightarrow> timerDelays (removeTimer h s)"
  by (simp add: timerDelays_def removeTimer_def list_all_iff)

lemma timerDelays_cong: "timers t = timers s \<Longrightarrow> timerDelays s \<Longrightarrow> timerDelays t"
  by (simp add: timerDelays_def)

lemma handleTouchStart_timerDelays:
  assumes "timerDelays s"
  shows "timerDelays (handleTouchStart s)"
proof (cases "gameState s = Waiting")
  case True
  have "timerDelays (setTimer ChargePower 50 (s\<lparr>gameState := Charging, power_val := 0,
      shotResult := Null, showResult := False\<rparr>))"
    by (rule timerDelays_setTimer) (use assms in \<open>simp_all add: timerDelays_def delayOf_def\<close>)
  with True show ?thesis
    by (simp add: handleTouchStart_def timerDelays_def)
next
  case False
  with assms show ?thesis by (simp add: handleTouchStart_def)
qed

lemma handleTouchEnd_timers:
  assumes "gameState s = Charging"
  shows "timers (handleTouchEnd r1 r2 s) =
         (case powerIntervalRef s of
            None \<Rightarrow> timers s
          | Some h \<Rightarrow> if h = 0 then timers s else filter (\<lambda>t. fst t \<noteq> h) (timers s)) @
         [(nextTimerId s, ShowResultCb, 1000)]"
  using assms
  by (simp add: handleTouchEnd_def Let_def setTimer_def animateGoalkeeper_def animateBall_def
      clearInterval_def removeTimer_def split: option.split)

lemma handleTouchEnd_timerDelays:
  assumes "timerDelays s"
  shows "timerDelays (handleTouchEnd r1 r2 s)"
proof (cases "gameState s = Charging")
  case True
  with assms show ?thesis
    by (simp add: handleTouchEnd_timers timerDelays_def delayOf_def list_all_iff
        split: option.split)
next
  case False
  with assms show ?thesis by (simp add: handleTouchEnd_other)
qed

lemma dispatch_timerDelays:
  assumes "dispatch r1 r2 e s = Some t" and "timerDelays s"
  shows "timerDelays t"
proof (cases e)
  case PressStart
  with assms show ?thesis
    by (auto simp: dispatch_def handleTouchStart_timerDelays)
next
  case PressEnd
  with assms show ?thesis
    by (auto simp: dispatch_def handleTouchEnd_timerDelays)
next
  case ClickResetScore
  with assms show ?thesis
    by (auto simp: dispatch_def resetScore_def resetGame_def timerDelays_def)
next
  case (TimerFires h)
  with assms show ?thesis
    by (auto simp: dispatch_def fire_def resetGame_def removeTimer_def showResultCallback_def
        setTimer_def timerDelays_def delayOf_def list_all_iff
        split: option.splits callback.splits prod.splits)
qed

lemma step_timerDelays:
  assumes "step oc s = Some s'" and "timerDelays s"
  shows "timerDelays s'"
proof -
  from assms(1) obtain e r1 r2 t where t: "dispatch r1 r2 e s = Some t"
    and s': "s' = autoShootEffect r1 r2 s t"
    by (rule step_SomeD)
  from t assms(2) have "timerDelays t" by (rule dispatch_timerDelays)
  with s' autoShootEffect_cases [of r1 r2 s t] show ?thesis
    by (auto simp: handleTouchEnd_timerDelays)
qed

lemma run_timerDelays:
  "run s ocs = Some s' \<Longrightarrow> timerDelays s \<Longrightarrow> timerDelays s'"
proof (induction ocs arbitrary: s)
  case Nil
  then show ?case by simp
next
  case (Cons oc ocs)
  then show ?case
    by (auto split: option.splits dest: step_timerDelays)
qed

lemma reachable_delay:
  assumes "run initial ocs = Some s" and "map_of (timers s) h = Some (cb, ms)"
  shows "ms = delayOf cb"
proof -
  have "timerDelays initial" by (simp add: timerDelays_def initial_def)
  with assms(1) have "timerDelays s" by (rule run_timerDelays)
  moreover from assms(2) have "(h, cb, ms) \<in> set (timers s)" by (rule map_of_SomeD)
  ultimately show ?thesis by (auto simp: timerDelays_def list_all_iff)
qed

subsection \<open>A press start and a press end with no tick in between\<close>

lemma handleTouchStart_initial: "handleTouchStart initial = charged 0"
  by (simp add: handleTouchStart_def setTimer_def initial_def charged_def)

lemma press_release:
  assumes "gameState u = Waiting"
    and "0 \<le> r1 \<and> r1 < 1 \<and> 0 \<le> r2 \<and> r2 < 1 \<and> 0 \<le> r3 \<and> r3 < 1 \<and> 0 \<le> r4 \<and> r4 < 1"
  shows "run u [(PressStart, r1, r2), (PressEnd, r3, r4)] =
           Some (handleTouchEnd r3 r4 (handleTouchStart u)) \<and>
         gameState (handleTouchEnd r3 r4 (handleTouchStart u)) = Shooting \<and>
         power_val (handleTouchEnd r3 r4 (handleTouchStart u)) = 0 \<and>
         shotResult (handleTouchEnd r3 r4 (handleTouchStart u)) = Save"
proof -
  from assms(1) have c: "gameState (handleTouchStart u) = Charging"
    and p: "power_val (handleTouchStart u) = 0"
    by (simp_all add: handleTouchStart_def setTimer_def)
  from assms c p have s1: "step (PressStart, r1, r2) u = Some (handleTouchStart u)"
    by (simp add: step_def dispatch_def autoShootEffect_def)
  from assms(2) c have s2: "step (PressEnd, r3, r4) (handleTouchStart u) =
      Some (handleTouchEnd r3 r4 (handleTouchStart u))"
    by (simp add: step_def dispatch_def autoShootEffect_def handleTouchEnd_charging)
  from c p have "shotResult (handleTouchEnd r3 r4 (handleTouchStart u)) = Save"
    by (simp add: handleTouchEnd_charging calculateShotOutcome_def perfectZoneStart_def)
  with s1 s2 c p show ?thesis
    by (simp add: handleTouchEnd_charging)
qed

subsection \<open>Ticks of an interval that a score reset has left registered\<close>

lemma press_reset_initial:
  "run initial [(PressStart, 0, 0), (ClickResetScore, 0, 0)] = Some (leaked 0)"
  by (simp add: step_def dispatch_def handleTouchStart_def setTimer_def autoShootEffect_def
      resetScore_def resetGame_def initial_def leaked_def)

lemma leaked_tick:
  assumes "k < 50"
  shows "step (TimerFires 1, 0, 0) (leaked k) = Some (leaked (Suc k))"
proof -
  from assms have "2 * real k < 100" by simp
  then show ?thesis
    by (simp add: step_def dispatch_def fire_def leaked_def initial_def chargeTick_def
        autoShootEffect_def)
qed

lemma leaked_ticks:
  "k \<le> 50 \<Longrightarrow> run (leaked 0) (replicate k (TimerFires 1, 0, 0)) = Some (leaked k)"
proof (induction k)
  case 0
  then show ?case by simp
next
  case (Suc k)
  then have ih: "run (leaked 0) (replicate k (TimerFires 1, 0, 0)) = Some (leaked k)"
    and k: "k < 50"
    by simp_all
  have "replicate (Suc k) (TimerFires 1, 0::real, 0::real) =
      replicate k (TimerFires 1, 0, 0) @ [(TimerFires 1, 0, 0)]"
    by (simp add: replicate_append_same)
  then have "run (leaked 0) (replicate (Suc k) (TimerFires 1, 0, 0)) =
      run (leaked k) [(TimerFires 1, 0, 0)]"
    by (simp only: run_append ih option.case)
  also have "\<dots> = Some (leaked (Suc k))"
    by (simp only: run.simps leaked_tick [OF k] option.case)
  finally show ?case .
qed

lemma reach_leaked_40:
  "run initial ((PressStart, 0, 0) # (ClickResetScore, 0, 0) # replicate 40 (TimerFires 1, 0, 0)) =
     Some (leaked 40)"
proof -
  have "run initial ([(PressStart, 0, 0), (ClickResetScore, 0, 0)] @
      replicate 40 (TimerFires 1, 0, 0)) = run (leaked 0) (replicate 40 (TimerFires 1, 0, 0))"
    by (simp only: run_append press_reset_initial option.case)
  then show ?thesis
    using leaked_ticks [of 40] by simp
qed

section \<open>The outcome resolver\<close>

text \<open>C1: the outcome is a function of the power alone: goal for a power from 70 to 85
  inclusive, save below 70, miss above 85; the boundary values 70 and 85 give goal,
  69 gives save and 86 gives miss.\<close>

theorem calculateShotOutcome_zones:
  "(70 \<le> p \<and> p \<le> 85 \<longrightarrow> calculateShotOutcome p = Goal) \<and>
   (p < 70 \<longrightarrow> calculateShotOutcome p = Save) \<and>
   (p > 85 \<longrightarrow> calculateShotOutcome p = Miss) \<and>
   calculateShotOutcome 70 = Goal \<and> calculateShotOutcome 85 = Goal \<and>
   calculateShotOutcome 69 = Save \<and> calculateShotOutcome 86 = Miss"
  by (simp add: calculateShotOutcome_def perfectZoneStart_def perfectZoneEnd_def)

theorem calculateShotOutcome_zones_witness:
  "calculateShotOutcome 75 = Goal \<and> calculateShotOutcome 10 = Save \<and>
   calculateShotOutcome 100 = Miss"
  using calculateShotOutcome_zones [of 75] calculateShotOutcome_zones [of 10]
    calculateShotOutcome_zones [of 100]
  by simp

section \<open>Auto-release\<close>

text \<open>C2: in every state reachable from the initial one, when an event leaves the phase
  charging with the power at or above 100, the effect runs \<open>handleTouchEnd\<close> in the same
  step, so the step ends in the state an explicit release yields there. The power is then
  exactly 100, the result is \<open>calculateShotOutcome 100\<close>, a miss, the attempts grow by
  one and the score stays.\<close>

theorem auto_release:
  assumes "run initial ocs = Some s"
    and "0 \<le> r1 \<and> r1 < 1 \<and> 0 \<le> r2 \<and> r2 < 1"
    and "dispatch r1 r2 e s = Some t"
    and "gameState t = Charging" and "power_val t \<ge> 100"
  shows "step (e, r1, r2) s = Some (handleTouchEnd r1 r2 t) \<and>
         power_val t = 100 \<and>
         gameState (handleTouchEnd r1 r2 t) = Shooting \<and>
         shotResult (handleTouchEnd r1 r2 t) = calculateShotOutcome 100 \<and>
         shotResult (handleTouchEnd r1 r2 t) = Miss \<and>
         attempts (handleTouchEnd r1 r2 t) = attempts s + 1 \<and>
         score (handleTouchEnd r1 r2 t) = score s"
proof -
  from assms(1) have inv: "evenPower (power_val s)" "chargingBelowMax s"
    by (rule reachable_power)+
  from assms(3) inv(1) have "evenPower (power_val t)" by (rule dispatch_evenPower)
  then have "power_val t \<le> 100" by (rule evenPower_le)
  with assms(5) have p: "power_val t = 100" by simp
  from inv(2) assms(4,5) have changed: "\<not> (power_val t = power_val s \<and> gameState t = gameState s)"
    by (auto simp: chargingBelowMax_def)
  with assms(4,5) have "autoShootEffect r1 r2 s t = handleTouchEnd r1 r2 t"
    by (auto simp: autoShootEffect_def)
  with assms(2,3) have st: "step (e, r1, r2) s = Some (handleTouchEnd r1 r2 t)"
    by (simp add: step_def)
  from dispatch_charging_counters [OF assms(3,4)] assms(4) p st show ?thesis
    by (simp add: handleTouchEnd_charging calculateShotOutcome_def perfectZoneStart_def
        perfectZoneEnd_def)
qed

theorem auto_release_witness:
  "run initial ((PressStart, 0, 0) # replicate 49 (TimerFires 1, 0, 0) @ [(TimerFires 1, 0, 0)]) =
     Some (handleTouchEnd 0 0 (charged 50)) \<and>
   shotResult (handleTouchEnd 0 0 (charged 50)) = Miss \<and>
   attempts (handleTouchEnd 0 0 (charged 50)) = 1 \<and>
   score (handleTouchEnd 0 0 (charged 50)) = 0"
proof -
  have d: "dispatch 0 0 (TimerFires 1) (charged 49) = Some (charged 50)"
    by (simp add: dispatch_def fire_def charged_def chargeTick_def)
  have r: "0 \<le> (0::real) \<and> (0::real) < 1 \<and> 0 \<le> (0::real) \<and> (0::real) < 1"
    by simp
  have g: "gameState (charged 50) = Charging" and p: "power_val (charged 50) \<ge> 100"
    by (simp_all add: charged_def)
  have c: "attempts (charged 49) = 0" "score (charged 49) = 0"
    by (simp_all add: charged_def)
  note rel = auto_release [OF reach_charged_49 r d g p]
  have "run initial ((PressStart, 0, 0) # replicate 49 (TimerFires 1, 0, 0) @ [(TimerFires 1, 0, 0)]) =
      run (charged 49) [(TimerFires 1, 0, 0)]"
    using reach_charged_49
    by (simp only: run_append append_Cons [symmetric] option.case)
  also have "\<dots> = Some (handleTouchEnd 0 0 (charged 50))"
    using rel by (simp only: run.simps option.case)
  finally have "run initial ((PressStart, 0, 0) # replicate 49 (TimerFires 1, 0, 0) @
      [(TimerFires 1, 0, 0)]) = Some (handleTouchEnd 0 0 (charged 50))" .
  moreover from rel have "shotResult (handleTouchEnd 0 0 (charged 50)) = Miss"
    and "attempts (handleTouchEnd 0 0 (charged 50)) = attempts (charged 49) + 1"
    and "score (handleTouchEnd 0 0 (charged 50)) = score (charged 49)"
    by blast+
  ultimately show ?thesis
    using c by simp
qed

section \<open>The session score\<close>

text \<open>C5: after every sequence of events from the initial state the score is at most
  the attempts. A release adds one to the attempts, and one to the score exactly when the
  resolved result is a goal. A step either keeps both counters, or clears both (the score
  reset), or is a release from phase charging into phase shooting that counts so.\<close>

theorem score_le_attempts:
  "(run initial ocs = Some s \<longrightarrow> score s \<le> attempts s) \<and>
   (gameState t = Charging \<longrightarrow>
      attempts (handleTouchEnd r1 r2 t) = attempts t + 1 \<and>
      score (handleTouchEnd r1 r2 t) =
        score t + (if calculateShotOutcome (power_val t) = Goal then 1 else 0)) \<and>
   (step oc t = Some t' \<longrightarrow>
      (attempts t' = attempts t \<and> score t' = score t \<and>
         (gameState t' = gameState t \<or> gameState t' \<noteq> Shooting)) \<or>
      (attempts t' = 0 \<and> score t' = 0 \<and> gameState t' = Waiting) \<or>
      (gameState t = Charging \<and> gameState t' = Shooting \<and>
         attempts t' = attempts t + 1 \<and>
         score t' = score t + (if shotResult t' = Goal then 1 else 0)))"
  using run_score_le [of initial ocs s] step_release_cases [of oc t t']
  by (simp add: handleTouchEnd_charging initial_def)

theorem score_le_attempts_witness:
  "run initial [(PressStart, 0, 0), (PressEnd, 0, 0)] = Some (handleTouchEnd 0 0 (charged 0)) \<and>
   score (handleTouchEnd 0 0 (charged 0)) \<le> attempts (handleTouchEnd 0 0 (charged 0)) \<and>
   gameState (charged 40) = Charging \<and>
   step (PressEnd, 0, 0) (charged 40) = Some (handleTouchEnd 0 0 (charged 40)) \<and>
   shotResult (handleTouchEnd 0 0 (charged 40)) = Goal \<and>
   attempts (handleTouchEnd 0 0 (charged 40)) = 1 \<and>
   score (handleTouchEnd 0 0 (charged 40)) = 1"
proof -
  have r: "run initial [(PressStart, 0, 0), (PressEnd, 0, 0)] = Some (handleTouchEnd 0 0 (charged 0))"
    using press_start_initial
    by (simp add: step_def dispatch_def autoShootEffect_def charged_def handleTouchEnd_charging
        split: option.splits)
  have g: "gameState (charged 40) = Charging" "attempts (charged 40) = 0" "score (charged 40) = 0"
    "calculateShotOutcome (power_val (charged 40)) = Goal"
    by (simp_all add: charged_def calculateShotOutcome_def perfectZoneStart_def perfectZoneEnd_def)
  have st: "step (PressEnd, 0, 0) (charged 40) = Some (handleTouchEnd 0 0 (charged 40))"
    by (simp add: step_def dispatch_def autoShootEffect_def charged_def handleTouchEnd_charging)
  from score_le_attempts [where ocs = "[(PressStart, 0, 0), (PressEnd, 0, 0)]"
      and s = "handleTouchEnd 0 0 (charged 0)" and t = "charged 40" and ?r1.0 = 0 and ?r2.0 = 0
      and oc = "(PressEnd, 0, 0)" and t' = "handleTouchEnd 0 0 (charged 40)"] r g st
  show ?thesis
    by (simp add: handleTouchEnd_charging)
qed

section \<open>The score reset\<close>

text \<open>C7: the score reset sets attempts and score to 0 and puts the round back to its
  defaults in phase waiting, from any state; applying it twice gives the state that
  applying it once gives. As an event it is the whole step: the effect does nothing after
  it.\<close>

theorem resetScore_idempotent:
  "resetScore (resetScore s) = resetScore s \<and>
   score (resetScore s) = 0 \<and> attempts (resetScore s) = 0 \<and>
   gameState (resetScore s) = Waiting \<and> power_val (resetScore s) = 0 \<and>
   shotResult (resetScore s) = Null \<and> showResult (resetScore s) = False \<and>
   ballPosition (resetScore s) = (50, 85) \<and> goalkeeperPosition (resetScore s) = ''center'' \<and>
   dispatch r1 r2 ClickResetScore s = Some (resetScore s) \<and>
   autoShootEffect r1 r2 s (resetScore s) = resetScore s"
  by (simp add: resetScore_def resetGame_def dispatch_def autoShootEffect_def)

section \<open>Inputs out of phase\<close>

text \<open>C8: a press start in a phase other than waiting and a press end in a phase other
  than charging leave the whole state as it is, timers included, both as handler calls and
  as steps.\<close>

theorem out_of_phase_noop:
  "(gameState s \<noteq> Waiting \<longrightarrow>
      handleTouchStart s = s \<and>
      (0 \<le> r1 \<and> r1 < 1 \<and> 0 \<le> r2 \<and> r2 < 1 \<longrightarrow> step (PressStart, r1, r2) s = Some s)) \<and>
   (gameState s \<noteq> Charging \<longrightarrow>
      handleTouchEnd r1 r2 s = s \<and>
      (0 \<le> r1 \<and> r1 < 1 \<and> 0 \<le> r2 \<and> r2 < 1 \<longrightarrow> step (PressEnd, r1, r2) s = Some s))"
  by (simp add: handleTouchStart_def handleTouchEnd_def step_def dispatch_def autoShootEffect_def)

theorem out_of_phase_noop_witness:
  "gameState (charged 10) \<noteq> Waiting \<and> handleTouchStart (charged 10) = charged 10 \<and>
   step (PressStart, 0, 0) (charged 10) = Some (charged 10) \<and>
   gameState initial \<noteq> Charging \<and> handleTouchEnd 0 0 initial = initial \<and>
   step (PressEnd, 0, 0) initial = Some initial"
proof -
  have g: "gameState (charged 10) \<noteq> Waiting" "gameState initial \<noteq> Charging"
    by (simp_all add: charged_def initial_def)
  from out_of_phase_noop [of "charged 10" 0 0] out_of_phase_noop [of initial 0 0] g
  show ?thesis by simp
qed

section \<open>The charging tick\<close>

text \<open>C9: a tick of the charging interval maps the power \<open>p\<close> to \<open>p + 2\<close> below 100 and to
  100 otherwise; from 98 it reaches exactly 100. A press start in phase waiting registers
  the interval with a period of 50 milliseconds and sets the power to 0; the interval
  stays registered when it ticks, and in every reachable state every registered charging
  interval has the period 50 and the power is at most 100. From every state in phase
  waiting, whatever its power, a press start followed by a press end with no tick in
  between releases with power 0, and the result is a save.\<close>

theorem charge_tick_bounded:
  "chargeTick p = (if p < 100 then p + 2 else 100) \<and>
   chargeTick 98 = 100 \<and>
   (gameState t = Waiting \<longrightarrow>
      timers (handleTouchStart t) = timers t @ [(nextTimerId t, ChargePower, 50)] \<and>
      power_val (handleTouchStart t) = 0) \<and>
   (map_of (timers t) h = Some (ChargePower, ms) \<longrightarrow>
      fire h t = Some (t\<lparr>power_val := chargeTick (power_val t)\<rparr>)) \<and>
   (run initial ocs = Some s \<longrightarrow>
      power_val s \<le> 100 \<and> (map_of (timers s) h = Some (ChargePower, ms) \<longrightarrow> ms = 50)) \<and>
   (0 \<le> r1 \<and> r1 < 1 \<and> 0 \<le> r2 \<and> r2 < 1 \<longrightarrow>
      run initial [(PressStart, r1, r2), (PressEnd, r1, r2)] =
        Some (handleTouchEnd r1 r2 (charged 0)) \<and>
      power_val (handleTouchEnd r1 r2 (charged 0)) = 0 \<and>
      shotResult (handleTouchEnd r1 r2 (charged 0)) = Save) \<and>
   (gameState u = Waiting \<and> 0 \<le> r1 \<and> r1 < 1 \<and> 0 \<le> r2 \<and> r2 < 1 \<and>
      0 \<le> r3 \<and> r3 < 1 \<and> 0 \<le> r4 \<and> r4 < 1 \<longrightarrow>
      run u [(PressStart, r1, r2), (PressEnd, r3, r4)] =
        Some (handleTouchEnd r3 r4 (handleTouchStart u)) \<and>
      gameState (handleTouchEnd r3 r4 (handleTouchStart u)) = Shooting \<and>
      power_val (handleTouchEnd r3 r4 (handleTouchStart u)) = 0 \<and>
      shotResult (handleTouchEnd r3 r4 (handleTouchStart u)) = Save)"
proof -
  have tick: "chargeTick p = (if p < 100 then p + 2 else 100) \<and> chargeTick 98 = 100"
    by (simp add: chargeTick_def)
  have start: "gameState t = Waiting \<longrightarrow>
      timers (handleTouchStart t) = timers t @ [(nextTimerId t, ChargePower, 50)] \<and>
      power_val (handleTouchStart t) = 0"
    by (simp add: handleTouchStart_def setTimer_def)
  have fires: "map_of (timers t) h = Some (ChargePower, ms) \<longrightarrow>
      fire h t = Some (t\<lparr>power_val := chargeTick (power_val t)\<rparr>)"
    by (simp add: fire_def)
  have reach: "run initial ocs = Some s \<longrightarrow>
      power_val s \<le> 100 \<and> (map_of (timers s) h = Some (ChargePower, ms) \<longrightarrow> ms = 50)"
    using reachable_power(1) [of ocs s] reachable_delay [of ocs s h ChargePower ms]
    by (auto dest: evenPower_le simp: delayOf_def)
  have first: "0 \<le> r1 \<and> r1 < 1 \<and> 0 \<le> r2 \<and> r2 < 1 \<longrightarrow>
      run initial [(PressStart, r1, r2), (PressEnd, r1, r2)] =
        Some (handleTouchEnd r1 r2 (charged 0)) \<and>
      power_val (handleTouchEnd r1 r2 (charged 0)) = 0 \<and>
      shotResult (handleTouchEnd r1 r2 (charged 0)) = Save"
    using press_release [of initial r1 r2 r1 r2] handleTouchStart_initial
    by (simp add: initial_def)
  have any: "gameState u = Waiting \<and> 0 \<le> r1 \<and> r1 < 1 \<and> 0 \<le> r2 \<and> r2 < 1 \<and>
      0 \<le> r3 \<and> r3 < 1 \<and> 0 \<le> r4 \<and> r4 < 1 \<longrightarrow>
      run u [(PressStart, r1, r2), (PressEnd, r3, r4)] =
        Some (handleTouchEnd r3 r4 (handleTouchStart u)) \<and>
      gameState (handleTouchEnd r3 r4 (handleTouchStart u)) = Shooting \<and>
      power_val (handleTouchEnd r3 r4 (handleTouchStart u)) = 0 \<and>
      shotResult (handleTouchEnd r3 r4 (handleTouchStart u)) = Save"
    using press_release [of u r1 r2 r3 r4] by blast
  from tick start fires reach first any show ?thesis
    by (intro conjI) (erule conjE | assumption)+
qed

theorem charge_tick_bounded_witness:
  "gameState initial = Waiting \<and>
   timers (handleTouchStart initial) = [(1, ChargePower, 50)] \<and>
   map_of (timers (charged 3)) 1 = Some (ChargePower, 50) \<and>
   fire 1 (charged 3) = Some (charged 4) \<and>
   run initial ((PressStart, 0, 0) # replicate 49 (TimerFires 1, 0, 0)) = Some (charged 49) \<and>
   power_val (charged 49) \<le> 100 \<and>
   run initial [(PressStart, 0, 1/2), (PressEnd, 0, 1/2)] =
     Some (handleTouchEnd 0 (1/2) (charged 0)) \<and>
   shotResult (handleTouchEnd 0 (1/2) (charged 0)) = Save \<and>
   run initial ((PressStart, 0, 0) # (ClickResetScore, 0, 0) # replicate 40 (TimerFires 1, 0, 0)) =
     Some (leaked 40) \<and>
   gameState (leaked 40) = Waiting \<and> power_val (leaked 40) = 80 \<and>
   run (leaked 40) [(PressStart, 0, 0), (PressEnd, 0, 1/2)] =
     Some (handleTouchEnd 0 (1/2) (handleTouchStart (leaked 40))) \<and>
   power_val (handleTouchEnd 0 (1/2) (handleTouchStart (leaked 40))) = 0 \<and>
   shotResult (handleTouchEnd 0 (1/2) (handleTouchStart (leaked 40))) = Save"
proof -
  have i: "gameState initial = Waiting" "timers initial = []" "nextTimerId initial = 1"
    by (simp_all add: initial_def)
  have m: "map_of (timers (charged 3)) 1 = Some (ChargePower, 50)"
    by (simp add: charged_def)
  have e: "charged 3\<lparr>power_val := chargeTick (power_val (charged 3))\<rparr> = charged 4"
    by (simp add: charged_def chargeTick_def)
  have w: "gameState (leaked 40) = Waiting" "power_val (leaked 40) = 80"
    by (simp_all add: leaked_def initial_def)
  note T = charge_tick_bounded [where t = "charged 3" and h = 1 and ms = 50
      and ocs = "(PressStart, 0, 0) # replicate 49 (TimerFires 1, 0, 0)" and s = "charged 49"
      and u = "leaked 40" and ?r1.0 = 0 and ?r2.0 = 0 and ?r3.0 = 0 and ?r4.0 = "1/2"]
  note U = charge_tick_bounded [where t = initial and ?r1.0 = 0 and ?r2.0 = "1/2"]
  from U i have s: "timers (handleTouchStart initial) = [(1, ChargePower, 50)]"
    by simp
  from U have f: "run initial [(PressStart, 0, 1/2), (PressEnd, 0, 1/2)] =
       Some (handleTouchEnd 0 (1/2) (charged 0)) \<and>
     shotResult (handleTouchEnd 0 (1/2) (charged 0)) = Save"
    by simp
  from T m e have a: "fire 1 (charged 3) = Some (charged 4)"
    by simp
  from T reach_charged_49 have b: "power_val (charged 49) \<le> 100"
    by blast
  from T w(1) have c: "run (leaked 40) [(PressStart, 0, 0), (PressEnd, 0, 1/2)] =
       Some (handleTouchEnd 0 (1/2) (handleTouchStart (leaked 40))) \<and>
     power_val (handleTouchEnd 0 (1/2) (handleTouchStart (leaked 40))) = 0 \<and>
     shotResult (handleTouchEnd 0 (1/2) (handleTouchStart (leaked 40))) = Save"
    by simp
  from i(1) s m a reach_charged_49 b f reach_leaked_40 w c show ?thesis
    by blast
qed

section \<open>Goalkeeper and ball while idle\<close>

text \<open>C10: in every reachable state whose phase is waiting or charging the goalkeeper is
  at the center and the ball at (50, 85). The initial state has these values, a press start
  keeps goalkeeper and ball, \<open>resetGame\<close> restores them, every step into waiting ends with
  them, and a step that changes goalkeeper or ball is a release from charging into
  shooting or ends in waiting with the defaults.\<close>

theorem idle_defaults:
  "(run initial ocs = Some s \<and> (gameState s = Waiting \<or> gameState s = Charging) \<longrightarrow>
      goalkeeperPosition s = ''center'' \<and> ballPosition s = (50, 85)) \<and>
   gameState initial = Waiting \<and>
   goalkeeperPosition initial = ''center'' \<and> ballPosition initial = (50, 85) \<and>
   goalkeeperPosition (handleTouchStart t) = goalkeeperPosition t \<and>
   ballPosition (handleTouchStart t) = ballPosition t \<and>
   goalkeeperPosition (resetGame t) = ''center'' \<and> ballPosition (resetGame t) = (50, 85) \<and>
   (step oc t = Some t' \<and> gameState t' = Waiting \<and> gameState t \<noteq> Waiting \<longrightarrow>
      goalkeeperPosition t' = ''center'' \<and> ballPosition t' = (50, 85)) \<and>
   (step oc t = Some t' \<and>
      (goalkeeperPosition t' \<noteq> goalkeeperPosition t \<or> ballPosition t' \<noteq> ballPosition t) \<longrightarrow>
      (gameState t = Charging \<and> gameState t' = Shooting) \<or>
      (gameState t' = Waiting \<and> goalkeeperPosition t' = ''center'' \<and>
         ballPosition t' = (50, 85)))"
proof -
  have "idleDefaults initial"
    by (simp add: idleDefaults_def roundDefaults_def initial_def)
  then have "run initial ocs = Some s \<longrightarrow> idleDefaults s"
    by (auto dest: run_idleDefaults)
  then have reach: "run initial ocs = Some s \<and> (gameState s = Waiting \<or> gameState s = Charging) \<longrightarrow>
      goalkeeperPosition s = ''center'' \<and> ballPosition s = (50, 85)"
    unfolding idleDefaults_def roundDefaults_def by blast
  have init: "gameState initial = Waiting \<and>
      goalkeeperPosition initial = ''center'' \<and> ballPosition initial = (50, 85)"
    by (simp add: initial_def)
  have reset: "goalkeeperPosition (resetGame t) = ''center'' \<and> ballPosition (resetGame t) = (50, 85)"
    by (simp add: resetGame_def)
  have into: "step oc t = Some t' \<and> gameState t' = Waiting \<and> gameState t \<noteq> Waiting \<longrightarrow>
      goalkeeperPosition t' = ''center'' \<and> ballPosition t' = (50, 85)"
    using step_into_waiting [of oc t t'] unfolding roundDefaults_def by blast
  have only: "step oc t = Some t' \<and>
      (goalkeeperPosition t' \<noteq> goalkeeperPosition t \<or> ballPosition t' \<noteq> ballPosition t) \<longrightarrow>
      (gameState t = Charging \<and> gameState t' = Shooting) \<or>
      (gameState t' = Waiting \<and> goalkeeperPosition t' = ''center'' \<and>
         ballPosition t' = (50, 85))"
    using step_visual_release [of oc t t'] unfolding roundDefaults_def by blast
  from reach init handleTouchStart_keeps [of t] reset into only show ?thesis
    by (intro conjI) (erule conjE | assumption)+
qed

theorem idle_defaults_witness:
  "run initial [(PressStart, 0, 0)] = Some (charged 0) \<and> gameState (charged 0) = Charging \<and>
   goalkeeperPosition (charged 0) = ''center'' \<and> ballPosition (charged 0) = (50, 85) \<and>
   step (ClickResetScore, 0, 0) (handleTouchEnd 0 0 (charged 0)) =
     Some (resetScore (handleTouchEnd 0 0 (charged 0))) \<and>
   gameState (handleTouchEnd 0 0 (charged 0)) = Shooting \<and>
   goalkeeperPosition (handleTouchEnd 0 0 (charged 0)) = ''left'' \<and>
   gameState (resetScore (handleTouchEnd 0 0 (charged 0))) = Waiting \<and>
   goalkeeperPosition (resetScore (handleTouchEnd 0 0 (charged 0))) = ''center'' \<and>
   ballPosition (resetScore (handleTouchEnd 0 0 (charged 0))) = (50, 85)"
proof -
  have g: "gameState (charged 0) = Charging"
    by (simp add: charged_def)
  have w: "gameState (resetScore (handleTouchEnd 0 0 (charged 0))) = Waiting"
    by (simp add: resetScore_def resetGame_def)
  have n: "gameState (handleTouchEnd 0 0 (charged 0)) \<noteq> Waiting"
    by (simp add: released_zero(1))
  have st: "step (ClickResetScore, 0, 0) (handleTouchEnd 0 0 (charged 0)) =
      Some (resetScore (handleTouchEnd 0 0 (charged 0)))"
    by (simp add: step_def dispatch_def autoShootEffect_def w)
  note T = idle_defaults [where ocs = "[(PressStart, 0, 0)]" and s = "charged 0"
      and t = "handleTouchEnd 0 0 (charged 0)" and oc = "(ClickResetScore, 0, 0)"
      and t' = "resetScore (handleTouchEnd 0 0 (charged 0))"]
  from T press_start_initial g
  have a: "goalkeeperPosition (charged 0) = ''center'' \<and> ballPosition (charged 0) = (50, 85)"
    by blast
  from T st w n
  have b: "goalkeeperPosition (resetScore (handleTouchEnd 0 0 (charged 0))) = ''center'' \<and>
      ballPosition (resetScore (handleTouchEnd 0 0 (charged 0))) = (50, 85)"
    by blast
  from press_start_initial g a st released_zero w b show ?thesis
    by blast
qed

section \<open>Timers that outlive their round\<close>

text \<open>C3: a score reset during charging does not clear the charging interval. After a press
  start and a score reset the phase is waiting and the interval is still registered; its
  next tick raises the power to 2 in phase waiting. After a further press start two
  intervals are registered, and one tick of each brings the new round to power 4.\<close>

theorem reset_leaves_interval_running:
  "run initial [(PressStart, 0, 0), (ClickResetScore, 0, 0)] =
     Some (initial\<lparr>powerIntervalRef := Some 1, timers := [(1, ChargePower, 50)],
       nextTimerId := 2\<rparr>) \<and>
   run initial [(PressStart, 0, 0), (ClickResetScore, 0, 0), (TimerFires 1, 0, 0)] =
     Some (initial\<lparr>power_val := 2, powerIntervalRef := Some 1, timers := [(1, ChargePower, 50)],
       nextTimerId := 2\<rparr>) \<and>
   run initial [(PressStart, 0, 0), (ClickResetScore, 0, 0), (PressStart, 0, 0),
       (TimerFires 1, 0, 0), (TimerFires 2, 0, 0)] =
     Some (initial\<lparr>gameState := Charging, power_val := 4, powerIntervalRef := Some 2,
       timers := [(1, ChargePower, 50), (2, ChargePower, 50)], nextTimerId := 3\<rparr>)"
  by (simp add: eval_defs)

text \<open>C4, as stated, fails: after a press, a release and a score reset the phase is waiting
  and the overlay hidden; the overlay timeout of the abandoned round then fires and shows
  the overlay. If a new round is started next, the reset timeout of the abandoned round
  fires during its charging phase and puts it back to waiting.\<close>

theorem stale_callbacks_change_state:
  "run initial [(PressStart, 0, 0), (PressEnd, 1/2, 0), (ClickResetScore, 0, 0)] =
     Some resetMidSequence \<and>
   gameState resetMidSequence = Waiting \<and> showResult resetMidSequence = False \<and>
   step (TimerFires 2, 0, 0) resetMidSequence =
     Some (resetMidSequence\<lparr>showResult := True, timers := [(3, ResetGameCb, 2000)],
       nextTimerId := 4\<rparr>) \<and>
   resetMidSequence\<lparr>showResult := True, timers := [(3, ResetGameCb, 2000)], nextTimerId := 4\<rparr> \<noteq>
     resetMidSequence \<and>
   run resetMidSequence [(TimerFires 2, 0, 0), (PressStart, 0, 0), (TimerFires 4, 0, 0)] =
     Some (resetMidSequence\<lparr>gameState := Charging, power_val := 2,
       powerIntervalRef := Some 4, timers := [(3, ResetGameCb, 2000), (4, ChargePower, 50)],
       nextTimerId := 5\<rparr>) \<and>
   run resetMidSequence [(TimerFires 2, 0, 0), (PressStart, 0, 0), (TimerFires 4, 0, 0),
       (TimerFires 3, 0, 0)] =
     Some (resetMidSequence\<lparr>gameState := Waiting, power_val := 0,
       powerIntervalRef := Some 4, timers := [(4, ChargePower, 50)], nextTimerId := 5\<rparr>)"
  by (simp add: eval_defs resetMidSequence_def)

text \<open>C4, amended: the two delayed callbacks are unconditional. When the overlay timeout
  fires it sets the overlay flag, registers the reset timeout and leaves phase, power,
  result, goalkeeper, ball and counters as they are; when the reset timeout fires it
  performs \<open>resetGame\<close>, whatever the phase. Neither \<open>resetScore\<close> nor \<open>resetGame\<close> removes
  a timer.\<close>

theorem delayed_callbacks_unguarded:
  "(map_of (timers s) h = Some (ShowResultCb, ms) \<longrightarrow>
      fire h s = Some (showResultCallback (removeTimer h s)) \<and>
      showResult (showResultCallback (removeTimer h s)) = True \<and>
      timers (showResultCallback (removeTimer h s)) =
        filter (\<lambda>t. fst t \<noteq> h) (timers s) @ [(nextTimerId s, ResetGameCb, 2000)] \<and>
      gameState (showResultCallback (removeTimer h s)) = gameState s \<and>
      power_val (showResultCallback (removeTimer h s)) = power_val s \<and>
      shotResult (showResultCallback (removeTimer h s)) = shotResult s \<and>
      goalkeeperPosition (showResultCallback (removeTimer h s)) = goalkeeperPosition s \<and>
      ballPosition (showResultCallback (removeTimer h s)) = ballPosition s \<and>
      score (showResultCallback (removeTimer h s)) = score s \<and>
      attempts (showResultCallback (removeTimer h s)) = attempts s) \<and>
   (map_of (timers s) h = Some (ResetGameCb, ms) \<longrightarrow>
      fire h s = Some (resetGame (removeTimer h s)) \<and>
      gameState (resetGame (removeTimer h s)) = Waiting \<and>
      power_val (resetGame (removeTimer h s)) = 0 \<and>
      shotResult (resetGame (removeTimer h s)) = Null \<and>
      showResult (resetGame (removeTimer h s)) = False \<and>
      ballPosition (resetGame (removeTimer h s)) = (50, 85) \<and>
      goalkeeperPosition (resetGame (removeTimer h s)) = ''center'' \<and>
      score (resetGame (removeTimer h s)) = score s \<and>
      attempts (resetGame (removeTimer h s)) = attempts s) \<and>
   timers (resetScore s) = timers s \<and> timers (resetGame s) = timers s"
  by (simp add: fire_def showResultCallback_def resetGame_def resetScore_def removeTimer_def
      setTimer_def)

theorem delayed_callbacks_unguarded_witness:
  "map_of (timers resetMidSequence) 2 = Some (ShowResultCb, 1000) \<and>
   fire 2 resetMidSequence = Some (showResultCallback (removeTimer 2 resetMidSequence)) \<and>
   gameState (showResultCallback (removeTimer 2 resetMidSequence)) = Waiting \<and>
   showResult (showResultCallback (removeTimer 2 resetMidSequence)) = True \<and>
   map_of (timers (showResultCallback (removeTimer 2 resetMidSequence))) 3 =
     Some (ResetGameCb, 2000) \<and>
   fire 3 (showResultCallback (removeTimer 2 resetMidSequence)) =
     Some (resetGame (removeTimer 3 (showResultCallback (removeTimer 2 resetMidSequence)))) \<and>
   showResult (resetGame (removeTimer 3 (showResultCallback (removeTimer 2 resetMidSequence)))) = False"
proof -
  have m: "map_of (timers resetMidSequence) 2 = Some (ShowResultCb, 1000)"
    "gameState resetMidSequence = Waiting"
    by (simp_all add: resetMidSequence_def initial_def)
  have m': "map_of (timers (showResultCallback (removeTimer 2 resetMidSequence))) 3 =
     Some (ResetGameCb, 2000)"
    by (simp add: resetMidSequence_def initial_def showResultCallback_def removeTimer_def
        setTimer_def)
  note A = delayed_callbacks_unguarded [of resetMidSequence 2 1000]
  note B = delayed_callbacks_unguarded [of "showResultCallback (removeTimer 2 resetMidSequence)" 3 2000]
  from A m have a: "fire 2 resetMidSequence = Some (showResultCallback (removeTimer 2 resetMidSequence))"
    "gameState (showResultCallback (removeTimer 2 resetMidSequence)) = Waiting"
    "showResult (showResultCallback (removeTimer 2 resetMidSequence)) = True"
    by simp_all
  from B m' have b: "fire 3 (showResultCallback (removeTimer 2 resetMidSequence)) =
     Some (resetGame (removeTimer 3 (showResultCallback (removeTimer 2 resetMidSequence))))"
    "showResult (resetGame (removeTimer 3 (showResultCallback (removeTimer 2 resetMidSequence)))) = False"
    by blast+
  from m(1) m' a b show ?thesis by blast
qed

section \<open>The ball of a saved shot\<close>

text \<open>C6: the ball of a saved shot is placed at the goalkeeper position of the render in
  which the release runs, not at the position chosen in that release. With the draws 0
  (goalkeeper left) and 1/2 (no jitter) a release at power 0 is a save, the goalkeeper
  goes left, and the ball goes to x = 50, the anchor of the center.\<close>

theorem save_ball_ignores_chosen_keeper:
  "run initial [(PressStart, 0, 0), (PressEnd, 0, 1/2)] =
     Some (handleTouchEnd 0 (1/2) (charged 0)) \<and>
   shotResult (handleTouchEnd 0 (1/2) (charged 0)) = Save \<and>
   goalkeeperPosition (handleTouchEnd 0 (1/2) (charged 0)) = ''left'' \<and>
   ballPosition (handleTouchEnd 0 (1/2) (charged 0)) = (50, 45)"
  by (simp add: eval_defs charged_def)

text \<open>What the animator computes. For a draw from 0 to the largest double below 1 the
  goalkeeper goes left when three times the draw is below \<open>1 - 2\<^sup>-\<^sup>5\<^sup>4\<close>, to the center when
  it is below \<open>2 - 2\<^sup>-\<^sup>5\<^sup>3\<close> and right otherwise, whatever the outcome: the product is
  rounded to a double before \<open>Math.floor\<close>, so the draws 0.3333333333333333 and
  0.6666666666666666 give center and right. The ball of a goal goes to
  x = 50 + (r - 1/2) * 30, y = 40 and the ball of a miss to x = 50 + (r - 1/2) * 40,
  y = 10, in double arithmetic; the ball of a save goes to y = 45 and to the anchor of the
  goalkeeper position of the render \<open>c\<close>, plus (r - 1/2) * 10. A release stores exactly
  these values.\<close>

theorem animator_targets:
  "(0 \<le> r \<and> r \<le> 1 - 1 / 2 ^ 53 \<longrightarrow>
      goalkeeperPosition (animateGoalkeeper r s) =
        (if 3 * r < 1 - 1 / 2 ^ 54 then ''left''
         else if 3 * r < 2 - 1 / 2 ^ 53 then ''center'' else ''right'')) \<and>
   goalkeeperPosition (animateGoalkeeper (6004799503160661 / 2 ^ 54) s) = ''center'' \<and>
   goalkeeperPosition (animateGoalkeeper (6004799503160661 / 2 ^ 53) s) = ''right'' \<and>
   ballPosition (animateBall r c Goal p s) = (addD 50 (mulD (subD r (1/2)) 30), 40) \<and>
   ballPosition (animateBall r c Miss p s) = (addD 50 (mulD (subD r (1/2)) 40), 10) \<and>
   ballPosition (animateBall r c Save p s) =
     (addD (if goalkeeperPosition c = ''left'' then 25
            else if goalkeeperPosition c = ''right'' then 75 else 50)
        (mulD (subD r (1/2)) 10), 45) \<and>
   (gameState s = Charging \<longrightarrow>
      goalkeeperPosition (handleTouchEnd r1 r2 s) = goalkeeperPosition (animateGoalkeeper r1 s) \<and>
      ballPosition (handleTouchEnd r1 r2 s) =
        ballPosition (animateBall r2 s (calculateShotOutcome (power_val s)) (power_val s) s))"
proof -
  have "goalkeeperPosition (animateGoalkeeper (6004799503160661 / 2 ^ 54) s) = ''center''"
    by (subst animateGoalkeeper_thirds) simp_all
  moreover have "goalkeeperPosition (animateGoalkeeper (6004799503160661 / 2 ^ 53) s) = ''right''"
    by (subst animateGoalkeeper_thirds) simp_all
  ultimately show ?thesis
    using animateGoalkeeper_thirds [of r s] handleTouchEnd_visual [of s r1 r2]
    by (simp add: animateBall_def)
qed

theorem animator_targets_witness:
  "goalkeeperPosition (animateGoalkeeper (1/2) initial) = ''center'' \<and>
   gameState (charged 40) = Charging \<and>
   goalkeeperPosition (handleTouchEnd (9/10) (1/2) (charged 40)) = ''right'' \<and>
   ballPosition (handleTouchEnd (9/10) (1/2) (charged 40)) = (50, 40)"
proof -
  have g: "gameState (charged 40) = Charging"
    "calculateShotOutcome (power_val (charged 40)) = Goal"
    by (simp_all add: charged_def calculateShotOutcome_def perfectZoneStart_def perfectZoneEnd_def)
  have b: "addD 50 (mulD (subD (1/2) (1/2)) 30) = 50"
    by (simp add: double_eval)
  from animator_targets [of "1/2" initial]
    animator_targets [where s = "charged 40" and ?r1.0 = "9/10" and ?r2.0 = "1/2" and r = "9/10"] g b
  show ?thesis
    by (simp add: animateBall_def)
qed

section \<open>Release and the charging interval\<close>

text \<open>In a run without a click on the score reset, no charging interval is registered
  in a state whose phase is not charging: a release, explicit or by the effect, has
  cleared it, so no tick can fire until the next press start.\<close>

theorem release_stops_ticks:
  assumes "run initial ocs = Some s" and "ClickResetScore \<notin> fst ` set ocs"
    and "gameState s \<noteq> Charging"
  shows "map_of (timers s) h \<noteq> Some (ChargePower, ms)"
proof -
  have "roundTimers initial" by (simp add: roundTimers_def initial_def)
  with assms(1,2) have "roundTimers s" by (rule run_roundTimers)
  with assms(3) show ?thesis
    by (cases "gameState s") (auto simp: roundTimers_def split: if_splits)
qed

theorem release_stops_ticks_witness:
  "run initial [(PressStart, 0, 0), (PressEnd, 0, 0)] = Some (handleTouchEnd 0 0 (charged 0)) \<and>
   ClickResetScore \<notin> fst ` set [(PressStart, 0::real, 0::real), (PressEnd, 0, 0)] \<and>
   gameState (handleTouchEnd 0 0 (charged 0)) \<noteq> Charging \<and>
   map_of (timers (handleTouchEnd 0 0 (charged 0))) 1 \<noteq> Some (ChargePower, 50) \<and>
   fire 1 (handleTouchEnd 0 0 (charged 0)) = None"
proof -
  have r: "run initial [(PressStart, 0, 0), (PressEnd, 0, 0)] =
      Some (handleTouchEnd 0 0 (charged 0))"
    using press_start_initial
    by (simp add: step_def dispatch_def autoShootEffect_def charged_def handleTouchEnd_charging
        split: option.splits)
  have n: "ClickResetScore \<notin> fst ` set [(PressStart, 0::real, 0::real), (PressEnd, 0, 0)]"
    by simp
  have g: "gameState (handleTouchEnd 0 0 (charged 0)) \<noteq> Charging"
    by (simp add: released_zero(1))
  note T = release_stops_ticks [OF r n g, of 1 50]
  moreover have "fire 1 (handleTouchEnd 0 0 (charged 0)) = None"
    by (simp add: fire_def handleTouchEnd_def charged_def Let_def setTimer_def
        animateGoalkeeper_def animateBall_def clearInterval_def removeTimer_def)
  ultimately show ?thesis
    using r n g by blast
qed

end
